theory Spec2Isabelle
  imports Main "HOL-Library.Multiset" "HOL-Library.Sublist"
begin

section \<open>The input table\<close>

text \<open>
  A cell of the uploaded table as pandas hands it to \<open>send_automated_emails\<close>: text, an
  integer, a boolean, or the missing value. Floating-point cells other than the missing value
  are outside the model. Text is ASCII: a \<open>char\<close> is one byte, and Python's case mapping of
  letters beyond ASCII is not modelled.
\<close>

datatype cell = Str string | IntV int | BoolV bool | NaN

definition digit_char :: "nat \<Rightarrow> char" where
  "digit_char d = char_of (48 + d)"

fun str_nat :: "nat \<Rightarrow> string" where
  "str_nat n = (if n < 10 then [digit_char n] else str_nat (n div 10) @ [digit_char (n mod 10)])"

declare str_nat.simps [simp del]

definition str_int :: "int \<Rightarrow> string" where
  "str_int i = (if i < 0 then CHR ''-'' # str_nat (nat (- i)) else str_nat (nat i))"

text \<open>\<open>Series.astype(str)\<close> on one cell: Python's \<open>str\<close> of the value.\<close>

fun astype_str :: "cell \<Rightarrow> string" where
  "astype_str (Str s) = s"
| "astype_str (IntV i) = str_int i"
| "astype_str (BoolV b) = (if b then ''True'' else ''False'')"
| "astype_str NaN = ''nan''"

text \<open>\<open>Series.str.upper()\<close> on one string: the letters a to z become A to Z.\<close>

definition upper_char :: "char \<Rightarrow> char" where
  "upper_char c =
     (let n = (of_char c :: nat) in if 97 \<le> n \<and> n \<le> 122 then char_of (n - 32) else c)"

definition upper :: "string \<Rightarrow> string" where
  "upper s = map upper_char s"

text \<open>
  A row carries the four fields the routine reads. The grouping key is of any linearly
  ordered type (the column's dtype); \<open>None\<close> is a missing Site Number. A table is its column
  index and its rows; a field whose column is absent from the index is never read, because the
  access raises \<open>KeyError\<close> first.
\<close>

record 'k row =
  site_number :: "'k option"
  download :: cell
  sda_status :: cell
  email :: cell

record 'k dataframe =
  columns :: "string list"
  rows :: "'k row list"

section \<open>Messages, log events, exceptions and the mail relay\<close>

record message =
  msg_from :: string
  msg_to :: cell
  msg_cc :: "string option"
  subject :: string
  content :: string

datatype level = Info | Success | Markdown | Warning | Error

text \<open>
  The text of a log line is the sequence of pieces of its f-string: literal text, the
  interpolated site number, an interpolated cell.
\<close>

datatype 'k frag = Lit string | Site 'k | Val cell

datatype 'k event = Log level "'k frag list" | Balloons

text \<open>
  The exceptions the routine can meet. Three derive from \<open>Exception\<close>: the relay
  rejecting the credentials, a column missing from the table, and any other failure with its
  description. Two derive from \<open>BaseException\<close> only, and \<open>except Exception\<close> does not
  catch them.
\<close>

datatype exn =
  SMTPAuthenticationError string | KeyError string | OtherException string
  | KeyboardInterrupt | SystemExit

fun is_Exception :: "exn \<Rightarrow> bool" where
  "is_Exception KeyboardInterrupt = False"
| "is_Exception SystemExit = False"
| "is_Exception x = True"

fun str_exn :: "exn \<Rightarrow> string" where
  "str_exn (SMTPAuthenticationError d) = d"
| "str_exn (KeyError k) = [CHR 0x27] @ k @ [CHR 0x27]"
| "str_exn (OtherException d) = d"
| "str_exn KeyboardInterrupt = []"
| "str_exn SystemExit = []"

text \<open>
  The mail relay is the environment of the run: whether opening the connection fails,
  whether the login with the given address and password fails, whether sending a given
  message fails when so many messages have already been sent in the session, and whether
  closing the session on leaving the \<open>with\<close> block fails (the relay answering \<open>QUIT\<close> with
  something other than 221). Building the \<open>EmailMessage\<close> and handing it over are one step
  of the environment, so a message that cannot be built from a row's cell is a failure of that
  step. The calls on the log container and on the page are taken not to fail.
\<close>

record env =
  connect :: "exn option"
  login :: "string \<Rightarrow> string \<Rightarrow> exn option"
  send_message :: "nat \<Rightarrow> message \<Rightarrow> exn option"
  quit :: "exn option"

record 'k run_state =
  trace :: "'k event list"
  sent :: "message list"

definition emit :: "'k event \<Rightarrow> 'k run_state \<Rightarrow> 'k run_state" where
  "emit ev st = st\<lparr>trace := trace st @ [ev]\<rparr>"

section \<open>The dispatch routine\<close>

definition nl :: string where
  "nl = [CHR 0x0A]"

text \<open>The three message bodies of lines 53, 56 and 61.\<close>

definition reminder_body :: string where
  "reminder_body = ''Dear User,'' @ nl @ nl @
     ''This is a friendly reminder to please download the file associated with your account.''
     @ nl @ nl @ ''Thank you,'' @ nl @ ''Automation Team''"

definition complete_body :: string where
  "complete_body = ''Dear User,'' @ nl @ nl @
     ''Our records show you have not yet completed registration. Please register to gain access.''
     @ nl @ nl @ ''Thank you,'' @ nl @ ''Automation Team''"

definition register_body :: string where
  "register_body = ''Dear User,'' @ nl @ nl @
     ''This email is to invite you to register for our platform. Please complete your registration at your earliest convenience.''
     @ nl @ nl @ ''Thank you,'' @ nl @ ''Automation Team''"

text \<open>Lines 43 to 61: the message for one row of a site that is not skipped.\<close>

definition build_message :: "string \<Rightarrow> string \<Rightarrow> bool \<Rightarrow> 'k row \<Rightarrow> message" where
  "build_message sender_email cc_email anyone_registered r =
     (let msg = \<lparr>msg_from = sender_email, msg_to = email r,
                 msg_cc = (if cc_email \<noteq> [] then Some cc_email else None),
                 subject = [], content = []\<rparr>
      in if anyone_registered then
           (if sda_status r = Str ''CREATION SUCCESSFUL'' then
              msg\<lparr>subject := ''Reminder: Please Download Your File'', content := reminder_body\<rparr>
            else
              msg\<lparr>subject := ''Action Required: Please Complete Your Registration'',
                  content := complete_body\<rparr>)
         else
           msg\<lparr>subject := ''Action Required: Please Register'', content := register_body\<rparr>)"

text \<open>Line 64: the log line after a send.\<close>

definition sent_line :: "'k row \<Rightarrow> message \<Rightarrow> 'k event" where
  "sent_line r msg =
     Log Success [Lit ''Email sent to: '', Val (email r), Lit ('' | Subject: '' @ [CHR 0x27]),
                  Lit (subject msg), Lit [CHR 0x27]]"

text \<open>
  Lines 40 to 64: the loop over the rows of one site. An exception leaves the loop with the
  state reached so far.
\<close>

fun send_rows ::
  "env \<Rightarrow> string list \<Rightarrow> string \<Rightarrow> string \<Rightarrow> bool \<Rightarrow> 'k row list \<Rightarrow> 'k run_state
     \<Rightarrow> 'k run_state \<times> exn option" where
  "send_rows e cols sender_email cc_email reg [] st = (st, None)"
| "send_rows e cols sender_email cc_email reg (r # rest) st =
     (if ''Email'' \<notin> set cols then (st, Some (KeyError ''Email''))
      else
        let msg = build_message sender_email cc_email reg r in
        (case send_message e (length (sent st)) msg of
           Some x \<Rightarrow> (st, Some x)
         | None \<Rightarrow>
             send_rows e cols sender_email cc_email reg rest
               (emit (sent_line r msg) (st\<lparr>sent := sent st @ [msg]\<rparr>))))"

text \<open>Line 33: the skip test on the rows of one site.\<close>

definition has_downloaded :: "'k row list \<Rightarrow> bool" where
  "has_downloaded site_df \<longleftrightarrow> ''YES'' \<in> set (map (\<lambda>r. upper (astype_str (download r))) site_df)"

text \<open>Line 38.\<close>

definition is_anyone_registered :: "'k row list \<Rightarrow> bool" where
  "is_anyone_registered site_df \<longleftrightarrow> Str ''CREATION SUCCESSFUL'' \<in> set (map sda_status site_df)"

text \<open>Lines 28 and 34: the two log lines that name the site.\<close>

definition processing_line :: "'k \<Rightarrow> 'k event" where
  "processing_line k =
     Log Markdown [Lit (''--- '' @ nl @ ''**Processing Site: ''), Site k, Lit ''**'']"

definition skipped_line :: "'k \<Rightarrow> 'k event" where
  "skipped_line k =
     Log Warning [Lit ''Site '', Site k,
                  Lit '': At least one user has downloaded. No emails will be sent.'']"

text \<open>Lines 28 to 64: the body of the loop over the sites.\<close>

definition process_site ::
  "env \<Rightarrow> string list \<Rightarrow> string \<Rightarrow> string \<Rightarrow> 'k \<Rightarrow> 'k row list \<Rightarrow> 'k run_state
     \<Rightarrow> 'k run_state \<times> exn option" where
  "process_site e cols sender_email cc_email k site_df st =
     (let st1 = emit (processing_line k) st
      in if ''DOWNLOAD'' \<notin> set cols then (st1, Some (KeyError ''DOWNLOAD''))
         else if has_downloaded site_df then (emit (skipped_line k) st1, None)
         else if ''SDA Status'' \<notin> set cols then (st1, Some (KeyError ''SDA Status''))
         else send_rows e cols sender_email cc_email (is_anyone_registered site_df) site_df st1)"

fun process_sites ::
  "env \<Rightarrow> string list \<Rightarrow> string \<Rightarrow> string \<Rightarrow> ('k \<times> 'k row list) list \<Rightarrow> 'k run_state
     \<Rightarrow> 'k run_state \<times> exn option" where
  "process_sites e cols sender_email cc_email [] st = (st, None)"
| "process_sites e cols sender_email cc_email ((k, site_df) # gs) st =
     (case process_site e cols sender_email cc_email k site_df st of
        (st', Some x) \<Rightarrow> (st', Some x)
      | (st', None) \<Rightarrow> process_sites e cols sender_email cc_email gs st')"

text \<open>
  Line 27, \<open>df.groupby('Site Number')\<close> with pandas' defaults \<open>sort=True\<close> and
  \<open>dropna=True\<close>: the keys are the distinct Site Numbers that are present, in ascending
  order; the group of a key holds the rows with that key, in table order.
\<close>

definition site_keys :: "('k::linorder) dataframe \<Rightarrow> 'k list" where
  "site_keys df = sort (remdups (List.map_filter site_number (rows df)))"

definition groupby :: "('k::linorder) dataframe \<Rightarrow> exn + ('k \<times> 'k row list) list" where
  "groupby df =
     (if ''Site Number'' \<notin> set (columns df) then Inl (KeyError ''Site Number'')
      else Inr (map (\<lambda>k. (k, filter (\<lambda>r. site_number r = Some k) (rows df))) (site_keys df)))"

text \<open>Lines 23 to 64: the body of the \<open>with\<close> block.\<close>

definition with_body ::
  "env \<Rightarrow> ('k::linorder) dataframe \<Rightarrow> string \<Rightarrow> string \<Rightarrow> string \<Rightarrow> 'k run_state
     \<Rightarrow> 'k run_state \<times> exn option" where
  "with_body e df sender_email sender_password cc_email st1 =
     (case login e sender_email sender_password of
        Some x \<Rightarrow> (st1, Some x)
      | None \<Rightarrow>
          (let st2 = emit (Log Success [Lit ''Login successful.'']) st1
           in case groupby df of
                Inl x \<Rightarrow> (st2, Some x)
              | Inr gs \<Rightarrow> process_sites e (columns df) sender_email cc_email gs st2))"

text \<open>
  Lines 20 to 64: the body of the \<open>try\<close> statement. Once the connection is open, the
  session is closed on every way out of the \<open>with\<close> block, and an exception raised by the
  closing takes the place of the one that left the block.
\<close>

definition try_body ::
  "env \<Rightarrow> ('k::linorder) dataframe \<Rightarrow> string \<Rightarrow> string \<Rightarrow> string \<Rightarrow> 'k run_state
     \<Rightarrow> 'k run_state \<times> exn option" where
  "try_body e df sender_email sender_password cc_email st =
     (let st1 = emit (Log Info [Lit ''Establishing secure connection with SMTP server...'']) st
      in case connect e of
           Some x \<Rightarrow> (st1, Some x)
         | None \<Rightarrow>
             (case with_body e df sender_email sender_password cc_email st1 of
                (st', raised) \<Rightarrow>
                  (case quit e of Some y \<Rightarrow> (st', Some y) | None \<Rightarrow> (st', raised))))"

text \<open>
  Lines 66 to 69: the log line of the \<open>except\<close> clause that catches the exception, if one
  does.
\<close>

definition except_clause :: "exn \<Rightarrow> 'k event option" where
  "except_clause x =
     (case x of
        SMTPAuthenticationError d \<Rightarrow>
          Some (Log Error [Lit ''[AUTHENTICATION ERROR] Login failed. Please verify your credentials and ensure you are using a valid App Password.''])
      | _ \<Rightarrow>
          if is_Exception x
          then Some (Log Error [Lit ''[UNEXPECTED ERROR] An error occurred: '', Lit (str_exn x)])
          else None)"

definition finished :: "'k event" where
  "finished = Log Info [Lit ''--- Email sending process finished ---'']"

definition init_state :: "'k run_state" where
  "init_state = \<lparr>trace = [], sent = []\<rparr>"

text \<open>
  What a call of the routine leaves behind: the log, the messages sent, and the exception
  that reaches the caller, if any.
\<close>

record 'k outcome = "'k run_state" +
  propagated :: "exn option"

text \<open>
  Lines 11 to 72: the routine, with its \<open>except\<close> clauses and its \<open>finally\<close> block. An
  exception that no clause catches reaches the caller after the \<open>finally\<close> block has run.
\<close>

definition send_automated_emails ::
  "env \<Rightarrow> ('k::linorder) dataframe \<Rightarrow> string \<Rightarrow> string \<Rightarrow> string \<Rightarrow> 'k outcome" where
  "send_automated_emails e df sender_email sender_password cc_email =
     (case try_body e df sender_email sender_password cc_email init_state of
        (st, raised) \<Rightarrow>
          (let (st', escaped) =
                 (case raised of
                    None \<Rightarrow> (st, None)
                  | Some x \<Rightarrow>
                      (case except_clause x of
                         Some line \<Rightarrow> (emit line st, None)
                       | None \<Rightarrow> (st, Some x)));
               st'' = emit finished (emit Balloons st')
           in \<lparr>trace = trace st'', sent = sent st'', propagated = escaped\<rparr>))"

section \<open>Notions used to state the properties\<close>

text \<open>
  A relay on which opening the connection, the login, every send and the closing of the
  session succeed.
\<close>

definition reliable :: env where
  "reliable = \<lparr>connect = None, login = (\<lambda>_ _. None), send_message = (\<lambda>_ _. None), quit = None\<rparr>"

text \<open>The sites whose "Processing Site" line appears in a log, in log order.\<close>

definition processed :: "'k event list \<Rightarrow> 'k list" where
  "processed tr =
     concat (map (\<lambda>ev. case ev of Log Markdown fs \<Rightarrow> [k. Site k \<leftarrow> fs] | _ \<Rightarrow> []) tr)"

text \<open>The column index of a table that has the four required columns.\<close>

definition required_columns :: "string list" where
  "required_columns = [''Site Number'', ''DOWNLOAD'', ''SDA Status'', ''Email'']"

definition mk_row :: "'k option \<Rightarrow> cell \<Rightarrow> cell \<Rightarrow> cell \<Rightarrow> 'k row" where
  "mk_row k d s m = \<lparr>site_number = k, download = d, sda_status = s, email = m\<rparr>"

text \<open>
  Trimming as the specification speaks of it (Python's \<open>str.strip\<close>): whitespace removed
  at both ends. The routine itself never trims.
\<close>

definition is_space :: "char \<Rightarrow> bool" where
  "is_space ch \<longleftrightarrow> ch \<in> set [CHR '' '', CHR 0x09, CHR 0x0A, CHR 0x0B, CHR 0x0C, CHR 0x0D]"

definition strip :: "string \<Rightarrow> string" where
  "strip s = rev (dropWhile is_space (rev (dropWhile is_space s)))"




section \<open>The loop over the rows of a site\<close>

lemma has_downloaded_iff:
  "has_downloaded site_df \<longleftrightarrow> (\<exists>r\<in>set site_df. upper (astype_str (download r)) = ''YES'')"
  unfolding has_downloaded_def by (simp add: image_iff) metis

lemma is_anyone_registered_iff:
  "is_anyone_registered site_df \<longleftrightarrow> (\<exists>r\<in>set site_df. sda_status r = Str ''CREATION SUCCESSFUL'')"
  unfolding is_anyone_registered_def by (simp add: image_iff) metis

lemma send_rows_all_accepted:
  assumes "''Email'' \<in> set cols"
    and "\<forall>r\<in>set rs. \<forall>n. send_message e n (build_message s c reg r) = None"
  shows "send_rows e cols s c reg rs st =
           (st\<lparr>trace := trace st @ map (\<lambda>r. sent_line r (build_message s c reg r)) rs,
               sent := sent st @ map (build_message s c reg) rs\<rparr>, None)"
  using assms(2)
proof (induction rs arbitrary: st)
  case Nil
  show ?case by simp
next
  case (Cons r rs)
  have "send_message e (length (sent st)) (build_message s c reg r) = None"
    using Cons.prems by simp
  moreover have "\<forall>r\<in>set rs. \<forall>n. send_message e n (build_message s c reg r) = None"
    using Cons.prems by simp
  ultimately show ?case
    using assms(1) Cons.IH by (simp add: emit_def Let_def)
qed

lemma process_site_not_skipped:
  assumes "\<not> has_downloaded site_df"
    and "''DOWNLOAD'' \<in> set cols" and "''SDA Status'' \<in> set cols"
  shows "process_site e cols s c k site_df st =
           send_rows e cols s c (is_anyone_registered site_df) site_df (emit (processing_line k) st)"
  using assms by (simp add: process_site_def Let_def)

lemma upper_examples:
  "upper ''YES'' = ''YES''" "upper ''yes'' = ''YES''" "upper ''Yes'' = ''YES''"
  "upper ''no'' = ''NO''" "upper ''nan'' = ''NAN''" "upper '' yes '' = '' YES ''"
  by code_simp+

section \<open>The skip rule\<close>

text \<open>
  C1. For a site in which some row's DOWNLOAD value, stringified and uppercased, is
  \<open>YES\<close>, the loop body logs the processing line and the warning, sends nothing and
  raises nothing, whatever the registration statuses of the rows and whatever the relay does.
\<close>

theorem skip_when_downloaded:
  assumes "\<exists>r\<in>set site_df. upper (astype_str (download r)) = ''YES''"
    and "''DOWNLOAD'' \<in> set cols"
  shows "process_site e cols s c k site_df st =
           (st\<lparr>trace := trace st @ [processing_line k, skipped_line k]\<rparr>, None)
         \<and> sent (fst (process_site e cols s c k site_df st)) = sent st"
proof -
  have "has_downloaded site_df"
    using assms(1) by (simp add: has_downloaded_iff)
  then show ?thesis
    using assms(2) by (simp add: process_site_def emit_def Let_def)
qed

theorem skip_when_downloaded_witness:
  "(\<exists>r\<in>set [mk_row (Some (2::int)) (Str ''Yes'') (Str ''CREATION SUCCESSFUL'') (Str ''c@x.com''),
                 mk_row (Some 2) (Str ''no'') (Str ''PENDING'') (Str ''d@x.com'')].
       upper (astype_str (download r)) = ''YES'')
   \<and> ''DOWNLOAD'' \<in> set required_columns
   \<and> sent (fst (process_site reliable required_columns ''me@x.com'' ''boss@x.com'' 2
         [mk_row (Some (2::int)) (Str ''Yes'') (Str ''CREATION SUCCESSFUL'') (Str ''c@x.com''),
          mk_row (Some 2) (Str ''no'') (Str ''PENDING'') (Str ''d@x.com'')] init_state)) = []"
proof -
  have h1: "\<exists>r\<in>set [mk_row (Some (2::int)) (Str ''Yes'') (Str ''CREATION SUCCESSFUL'') (Str ''c@x.com''),
                 mk_row (Some 2) (Str ''no'') (Str ''PENDING'') (Str ''d@x.com'')].
       upper (astype_str (download r)) = ''YES''"
    by (simp add: mk_row_def upper_examples)
  have h2: "''DOWNLOAD'' \<in> set required_columns"
    by (simp add: required_columns_def)
  show ?thesis
    using h1 h2 skip_when_downloaded [OF h1 h2, of reliable "''me@x.com''" "''boss@x.com''" 2 init_state]
    by (simp add: init_state_def)
qed

section \<open>The registration rules\<close>

text \<open>
  C2. For a site that is not skipped and has at least one row whose SDA Status is exactly
  \<open>CREATION SUCCESSFUL\<close>, on a table with the columns read and a relay that accepts the
  site's messages, the loop body sends exactly one message per row, in row order, to that row's
  Email: the download reminder for a row with that status, the complete-your-registration
  message for every other row.
\<close>

theorem registration_mixed_rule:
  assumes "\<forall>r\<in>set site_df. upper (astype_str (download r)) \<noteq> ''YES''"
    and "\<exists>r\<in>set site_df. sda_status r = Str ''CREATION SUCCESSFUL''"
    and "''DOWNLOAD'' \<in> set cols" and "''SDA Status'' \<in> set cols" and "''Email'' \<in> set cols"
    and "\<forall>r\<in>set site_df. \<forall>n. send_message e n (build_message s c True r) = None"
  shows "sent (fst (process_site e cols s c k site_df st)) =
           sent st @
           map (\<lambda>r. \<lparr>msg_from = s, msg_to = email r,
                      msg_cc = (if c \<noteq> [] then Some c else None),
                      subject = (if sda_status r = Str ''CREATION SUCCESSFUL''
                                 then ''Reminder: Please Download Your File''
                                 else ''Action Required: Please Complete Your Registration''),
                      content = (if sda_status r = Str ''CREATION SUCCESSFUL''
                                 then reminder_body else complete_body)\<rparr>) site_df
         \<and> snd (process_site e cols s c k site_df st) = None"
proof -
  have nd: "\<not> has_downloaded site_df"
    using assms(1) by (simp add: has_downloaded_iff)
  have reg: "is_anyone_registered site_df"
    using assms(2) by (simp add: is_anyone_registered_iff)
  have run: "process_site e cols s c k site_df st =
               send_rows e cols s c True site_df (emit (processing_line k) st)"
    using process_site_not_skipped [OF nd assms(3,4)] reg by simp
  have msgs: "map (build_message s c True) site_df =
           map (\<lambda>r. \<lparr>msg_from = s, msg_to = email r,
                      msg_cc = (if c \<noteq> [] then Some c else None),
                      subject = (if sda_status r = Str ''CREATION SUCCESSFUL''
                                 then ''Reminder: Please Download Your File''
                                 else ''Action Required: Please Complete Your Registration''),
                      content = (if sda_status r = Str ''CREATION SUCCESSFUL''
                                 then reminder_body else complete_body)\<rparr>) site_df"
    by (simp add: build_message_def)
  show ?thesis
    unfolding run send_rows_all_accepted [OF assms(5,6)] msgs [symmetric]
    by (simp add: emit_def)
qed

theorem registration_mixed_rule_witness:
  "map subject (sent (fst (process_site reliable required_columns ''me@x.com'' [] (1::int)
       [mk_row (Some 1) (Str ''no'') (Str ''CREATION SUCCESSFUL'') (Str ''a@x.com''),
        mk_row (Some 1) (Str ''no'') (Str ''PENDING'') (Str ''b@x.com'')] init_state)))
     = [''Reminder: Please Download Your File'', ''Action Required: Please Complete Your Registration'']
   \<and> map msg_to (sent (fst (process_site reliable required_columns ''me@x.com'' [] (1::int)
       [mk_row (Some 1) (Str ''no'') (Str ''CREATION SUCCESSFUL'') (Str ''a@x.com''),
        mk_row (Some 1) (Str ''no'') (Str ''PENDING'') (Str ''b@x.com'')] init_state)))
     = [Str ''a@x.com'', Str ''b@x.com'']"
proof -
  let ?g = "[mk_row (Some (1::int)) (Str ''no'') (Str ''CREATION SUCCESSFUL'') (Str ''a@x.com''),
             mk_row (Some 1) (Str ''no'') (Str ''PENDING'') (Str ''b@x.com'')]"
  have h1: "\<forall>r\<in>set ?g. upper (astype_str (download r)) \<noteq> ''YES''"
    by (simp add: mk_row_def upper_examples)
  have h2: "\<exists>r\<in>set ?g. sda_status r = Str ''CREATION SUCCESSFUL''"
    by (simp add: mk_row_def)
  have h3: "''DOWNLOAD'' \<in> set required_columns" "''SDA Status'' \<in> set required_columns"
    "''Email'' \<in> set required_columns"
    by (simp_all add: required_columns_def)
  have h4: "\<forall>r\<in>set ?g. \<forall>n. send_message reliable n (build_message ''me@x.com'' [] True r) = None"
    by (simp add: reliable_def)
  show ?thesis
    using registration_mixed_rule [OF h1 h2 h3 h4, of 1 init_state]
    by (simp add: init_state_def mk_row_def)
qed

text \<open>
  C3. For a site that is not skipped and has no row whose SDA Status is exactly
  \<open>CREATION SUCCESSFUL\<close>, on a table with the columns read and a relay that accepts the
  site's messages, the loop body sends exactly one message per row, in row order, to that row's
  Email, with the subject \<open>Action Required: Please Register\<close> and the invitation body.
\<close>

theorem all_unregistered_rule:
  assumes "\<forall>r\<in>set site_df. upper (astype_str (download r)) \<noteq> ''YES''"
    and "\<forall>r\<in>set site_df. sda_status r \<noteq> Str ''CREATION SUCCESSFUL''"
    and "''DOWNLOAD'' \<in> set cols" and "''SDA Status'' \<in> set cols" and "''Email'' \<in> set cols"
    and "\<forall>r\<in>set site_df. \<forall>n. send_message e n (build_message s c False r) = None"
  shows "sent (fst (process_site e cols s c k site_df st)) =
           sent st @
           map (\<lambda>r. \<lparr>msg_from = s, msg_to = email r,
                      msg_cc = (if c \<noteq> [] then Some c else None),
                      subject = ''Action Required: Please Register'',
                      content = register_body\<rparr>) site_df
         \<and> snd (process_site e cols s c k site_df st) = None"
proof -
  have nd: "\<not> has_downloaded site_df"
    using assms(1) by (simp add: has_downloaded_iff)
  have reg: "\<not> is_anyone_registered site_df"
    using assms(2) by (simp add: is_anyone_registered_iff)
  have run: "process_site e cols s c k site_df st =
               send_rows e cols s c False site_df (emit (processing_line k) st)"
    using process_site_not_skipped [OF nd assms(3,4)] reg by simp
  have msgs: "map (build_message s c False) site_df =
           map (\<lambda>r. \<lparr>msg_from = s, msg_to = email r,
                      msg_cc = (if c \<noteq> [] then Some c else None),
                      subject = ''Action Required: Please Register'',
                      content = register_body\<rparr>) site_df"
    by (simp add: build_message_def)
  show ?thesis
    unfolding run send_rows_all_accepted [OF assms(5,6)] msgs [symmetric]
    by (simp add: emit_def)
qed

theorem all_unregistered_rule_witness:
  "map subject (sent (fst (process_site reliable required_columns ''me@x.com'' ''boss@x.com'' (3::int)
       [mk_row (Some 3) (Str ''no'') (Str ''PENDING'') (Str ''d@x.com''),
        mk_row (Some 3) (Str ''no'') (Str ''creation successful'') (Str ''e@x.com'')] init_state)))
     = [''Action Required: Please Register'', ''Action Required: Please Register'']
   \<and> map msg_to (sent (fst (process_site reliable required_columns ''me@x.com'' ''boss@x.com'' (3::int)
       [mk_row (Some 3) (Str ''no'') (Str ''PENDING'') (Str ''d@x.com''),
        mk_row (Some 3) (Str ''no'') (Str ''creation successful'') (Str ''e@x.com'')] init_state)))
     = [Str ''d@x.com'', Str ''e@x.com'']"
proof -
  let ?g = "[mk_row (Some (3::int)) (Str ''no'') (Str ''PENDING'') (Str ''d@x.com''),
             mk_row (Some 3) (Str ''no'') (Str ''creation successful'') (Str ''e@x.com'')]"
  have h1: "\<forall>r\<in>set ?g. upper (astype_str (download r)) \<noteq> ''YES''"
    by (simp add: mk_row_def upper_examples)
  have h2: "\<forall>r\<in>set ?g. sda_status r \<noteq> Str ''CREATION SUCCESSFUL''"
    by (simp add: mk_row_def)
  have h3: "''DOWNLOAD'' \<in> set required_columns" "''SDA Status'' \<in> set required_columns"
    "''Email'' \<in> set required_columns"
    by (simp_all add: required_columns_def)
  have h4: "\<forall>r\<in>set ?g. \<forall>n. send_message reliable n (build_message ''me@x.com'' ''boss@x.com'' False r) = None"
    by (simp add: reliable_def)
  show ?thesis
    using all_unregistered_rule [OF h1 h2 h3 h4, of 3 init_state]
    by (simp add: init_state_def mk_row_def)
qed

section \<open>Missing values and untrimmed values in the skip test\<close>

lemma upper_length: "length (upper s) = length s"
  by (simp add: upper_def)

text \<open>
  C10. A missing DOWNLOAD value is stringified to \<open>nan\<close> and uppercased to \<open>NAN\<close>, which
  is not \<open>YES\<close>. A site in which every DOWNLOAD value is missing or has a stringified,
  uppercased form other than \<open>YES\<close> is not skipped: on a table with the columns read, the
  loop body goes on to the registration test and the loop over the rows.
\<close>

theorem missing_download_not_skipped:
  assumes "\<forall>r\<in>set site_df. download r = NaN \<or> upper (astype_str (download r)) \<noteq> ''YES''"
    and "''DOWNLOAD'' \<in> set cols" and "''SDA Status'' \<in> set cols"
  shows "upper (astype_str NaN) = ''NAN''
         \<and> \<not> has_downloaded site_df
         \<and> process_site e cols s c k site_df st =
             send_rows e cols s c (is_anyone_registered site_df) site_df
               (emit (processing_line k) st)"
proof -
  have nan: "upper (astype_str NaN) = ''NAN''"
    by (simp add: upper_examples)
  have "\<forall>r\<in>set site_df. upper (astype_str (download r)) \<noteq> ''YES''"
  proof
    fix r assume "r \<in> set site_df"
    then have "download r = NaN \<or> upper (astype_str (download r)) \<noteq> ''YES''"
      using assms(1) by blast
    then show "upper (astype_str (download r)) \<noteq> ''YES''"
      using nan by auto
  qed
  then have nd: "\<not> has_downloaded site_df"
    by (simp add: has_downloaded_iff)
  show ?thesis
    using nan nd process_site_not_skipped [OF nd assms(2,3)] by simp
qed

theorem missing_download_not_skipped_witness:
  "map subject (sent (fst (process_site reliable required_columns ''me@x.com'' [] (4::int)
       [mk_row (Some 4) NaN (Str ''CREATION SUCCESSFUL'') (Str ''a@x.com''),
        mk_row (Some 4) NaN NaN (Str ''b@x.com'')] init_state)))
     = [''Reminder: Please Download Your File'', ''Action Required: Please Complete Your Registration'']"
proof -
  let ?g = "[mk_row (Some (4::int)) NaN (Str ''CREATION SUCCESSFUL'') (Str ''a@x.com''),
             mk_row (Some 4) NaN NaN (Str ''b@x.com'')]"
  have h1: "\<forall>r\<in>set ?g. download r = NaN \<or> upper (astype_str (download r)) \<noteq> ''YES''"
    by (simp add: mk_row_def)
  have h2: "''DOWNLOAD'' \<in> set required_columns" "''SDA Status'' \<in> set required_columns"
    by (simp_all add: required_columns_def)
  have "is_anyone_registered ?g"
    by (simp add: is_anyone_registered_def mk_row_def)
  then show ?thesis
    using missing_download_not_skipped [OF h1 h2, of reliable "''me@x.com''" "[]" 4 init_state]
    by (simp add: required_columns_def reliable_def build_message_def emit_def init_state_def
        mk_row_def Let_def)
qed

text \<open>
  C8, as the claim states it, fails: a site whose only DOWNLOAD value is \<open>yes\<close> between two
  blanks, which trims and uppercases to \<open>YES\<close>, is not skipped and its row gets a message.
\<close>

theorem trimmed_yes_counterexample:
  "upper (strip (astype_str (download (mk_row (Some (1::int)) (Str '' yes '') (Str ''PENDING'') (Str ''c@x.com'')))))
     = ''YES''
   \<and> map subject (sent (fst (process_site reliable required_columns ''me@x.com'' [] (1::int)
        [mk_row (Some 1) (Str '' yes '') (Str ''PENDING'') (Str ''c@x.com'')] init_state)))
     = [''Action Required: Please Register'']"
proof -
  have "strip '' yes '' = ''yes''"
    by (simp add: strip_def is_space_def)
  then have a: "upper (strip (astype_str (download (mk_row (Some (1::int)) (Str '' yes '') (Str ''PENDING'') (Str ''c@x.com'')))))
     = ''YES''"
    by (simp add: mk_row_def upper_examples)
  have "\<not> has_downloaded [mk_row (Some (1::int)) (Str '' yes '') (Str ''PENDING'') (Str ''c@x.com'')]"
    by (simp add: has_downloaded_def mk_row_def upper_examples)
  then have b: "map subject (sent (fst (process_site reliable required_columns ''me@x.com'' [] (1::int)
        [mk_row (Some 1) (Str '' yes '') (Str ''PENDING'') (Str ''c@x.com'')] init_state)))
     = [''Action Required: Please Register'']"
    by (simp add: process_site_def required_columns_def is_anyone_registered_def reliable_def
        build_message_def emit_def init_state_def mk_row_def Let_def)
  show ?thesis
    using a b by (rule conjI)
qed

text \<open>
  C8, amended. The skip test compares the stringified, uppercased DOWNLOAD value as it
  stands, without trimming: a site with a row whose value is \<open>YES\<close> in that form is skipped,
  and a site in which no stringified DOWNLOAD value is exactly three characters long (so also
  every value that is \<open>yes\<close> with blanks around it) is not skipped and goes on to the
  registration test.
\<close>

theorem skip_test_does_not_trim:
  assumes "''DOWNLOAD'' \<in> set cols" and "''SDA Status'' \<in> set cols"
  shows "((\<exists>r\<in>set site_df. upper (astype_str (download r)) = ''YES'') \<longrightarrow>
            process_site e cols s c k site_df st =
              (st\<lparr>trace := trace st @ [processing_line k, skipped_line k]\<rparr>, None))
         \<and> ((\<forall>r\<in>set site_df. length (astype_str (download r)) \<noteq> 3) \<longrightarrow>
            process_site e cols s c k site_df st =
              send_rows e cols s c (is_anyone_registered site_df) site_df
                (emit (processing_line k) st))"
proof (intro conjI impI)
  assume "\<exists>r\<in>set site_df. upper (astype_str (download r)) = ''YES''"
  then have "has_downloaded site_df"
    by (simp add: has_downloaded_iff)
  then show "process_site e cols s c k site_df st =
              (st\<lparr>trace := trace st @ [processing_line k, skipped_line k]\<rparr>, None)"
    using assms(1) by (simp add: process_site_def emit_def Let_def)
next
  assume len: "\<forall>r\<in>set site_df. length (astype_str (download r)) \<noteq> 3"
  have "\<forall>r\<in>set site_df. upper (astype_str (download r)) \<noteq> ''YES''"
  proof
    fix r assume "r \<in> set site_df"
    then have "length (upper (astype_str (download r))) \<noteq> 3"
      using len by (simp add: upper_length)
    then show "upper (astype_str (download r)) \<noteq> ''YES''"
      by auto
  qed
  then have "\<not> has_downloaded site_df"
    by (simp add: has_downloaded_iff)
  then show "process_site e cols s c k site_df st =
              send_rows e cols s c (is_anyone_registered site_df) site_df
                (emit (processing_line k) st)"
    using assms by (rule process_site_not_skipped)
qed

theorem skip_test_does_not_trim_witness:
  "sent (fst (process_site reliable required_columns ''me@x.com'' [] (2::int)
       [mk_row (Some 2) (Str ''yEs'') (Str ''PENDING'') (Str ''c@x.com'')] init_state)) = []
   \<and> map msg_to (sent (fst (process_site reliable required_columns ''me@x.com'' [] (1::int)
       [mk_row (Some 1) (Str '' yes '') (Str ''PENDING'') (Str ''c@x.com'')] init_state)))
     = [Str ''c@x.com'']"
proof -
  have h: "''DOWNLOAD'' \<in> set required_columns" "''SDA Status'' \<in> set required_columns"
    by (simp_all add: required_columns_def)
  have y: "upper ''yEs'' = ''YES''"
    by code_simp
  have h1: "\<exists>r\<in>set [mk_row (Some (2::int)) (Str ''yEs'') (Str ''PENDING'') (Str ''c@x.com'')].
              upper (astype_str (download r)) = ''YES''"
    by (simp add: mk_row_def y)
  have h2: "\<forall>r\<in>set [mk_row (Some (1::int)) (Str '' yes '') (Str ''PENDING'') (Str ''c@x.com'')].
              length (astype_str (download r)) \<noteq> 3"
    by (simp add: mk_row_def)
  have a: "sent (fst (process_site reliable required_columns ''me@x.com'' [] (2::int)
       [mk_row (Some 2) (Str ''yEs'') (Str ''PENDING'') (Str ''c@x.com'')] init_state)) = []"
    using h1 skip_test_does_not_trim [OF h, of "[mk_row (Some (2::int)) (Str ''yEs'') (Str ''PENDING'') (Str ''c@x.com'')]"
        reliable "''me@x.com''" "[]" 2 init_state]
    by (simp add: init_state_def)
  have b: "map msg_to (sent (fst (process_site reliable required_columns ''me@x.com'' [] (1::int)
       [mk_row (Some 1) (Str '' yes '') (Str ''PENDING'') (Str ''c@x.com'')] init_state)))
     = [Str ''c@x.com'']"
    using h2 skip_test_does_not_trim [OF h, of "[mk_row (Some (1::int)) (Str '' yes '') (Str ''PENDING'') (Str ''c@x.com'')]"
        reliable "''me@x.com''" "[]" 1 init_state]
    by (simp add: required_columns_def reliable_def build_message_def emit_def init_state_def
        mk_row_def Let_def)
  show ?thesis
    using a b by (rule conjI)
qed

section \<open>The loops under any relay\<close>

lemma send_rows_shape:
  "\<exists>n x. n \<le> length rs \<and> (x = None \<longrightarrow> n = length rs) \<and>
     send_rows e cols s c reg rs st =
       (st\<lparr>trace := trace st @ map (\<lambda>r. sent_line r (build_message s c reg r)) (take n rs),
           sent := sent st @ map (build_message s c reg) (take n rs)\<rparr>, x)"
proof (induction rs arbitrary: st)
  case Nil
  show ?case by simp
next
  case (Cons r rs)
  let ?m = "build_message s c reg r"
  show ?case
  proof (cases "''Email'' \<in> set cols \<and> send_message e (length (sent st)) ?m = None")
    case False
    then have "\<exists>y. send_rows e cols s c reg (r # rs) st = (st, Some y)"
      by (cases "send_message e (length (sent st)) ?m") (simp_all add: Let_def)
    then obtain y where "send_rows e cols s c reg (r # rs) st = (st, Some y)" ..
    then show ?thesis
      by (intro exI [of _ 0] exI [of _ "Some y"]) simp
  next
    case True
    let ?st = "emit (sent_line r ?m) (st\<lparr>sent := sent st @ [?m]\<rparr>)"
    have step: "send_rows e cols s c reg (r # rs) st = send_rows e cols s c reg rs ?st"
      using True by (simp add: Let_def)
    obtain n x where n: "n \<le> length rs" "x = None \<longrightarrow> n = length rs"
      and run: "send_rows e cols s c reg rs ?st =
       (?st\<lparr>trace := trace ?st @ map (\<lambda>r. sent_line r (build_message s c reg r)) (take n rs),
           sent := sent ?st @ map (build_message s c reg) (take n rs)\<rparr>, x)"
      using Cons.IH [of ?st] by blast
    have "send_rows e cols s c reg (r # rs) st =
       (st\<lparr>trace := trace st @ map (\<lambda>r. sent_line r (build_message s c reg r)) (take (Suc n) (r # rs)),
           sent := sent st @ map (build_message s c reg) (take (Suc n) (r # rs))\<rparr>, x)"
      unfolding step run by (simp add: emit_def)
    then show ?thesis
      using n by (intro exI [of _ "Suc n"] exI [of _ x]) simp
  qed
qed

lemma process_site_shape:
  "\<exists>evs ms x. process_site e cols s c k site_df st =
       (st\<lparr>trace := trace st @ processing_line k # evs, sent := sent st @ ms\<rparr>, x)
     \<and> (evs = [skipped_line k] \<and> ms = [] \<and> x = None
        \<or> (\<exists>n reg. n \<le> length site_df \<and> (x = None \<longrightarrow> n = length site_df)
             \<and> evs = map (\<lambda>r. sent_line r (build_message s c reg r)) (take n site_df)
             \<and> ms = map (build_message s c reg) (take n site_df)))"
proof -
  let ?st = "emit (processing_line k) st"
  consider (nocol) "''DOWNLOAD'' \<notin> set cols \<or> \<not> has_downloaded site_df \<and> ''SDA Status'' \<notin> set cols"
    | (skip) "''DOWNLOAD'' \<in> set cols" "has_downloaded site_df"
    | (rows) "''DOWNLOAD'' \<in> set cols" "''SDA Status'' \<in> set cols" "\<not> has_downloaded site_df"
    by blast
  then show ?thesis
  proof cases
    case nocol
    then have "\<exists>y. process_site e cols s c k site_df st = (?st, Some y)"
      by (auto simp: process_site_def Let_def)
    then obtain y where "process_site e cols s c k site_df st = (?st, Some y)" ..
    then have "process_site e cols s c k site_df st =
       (st\<lparr>trace := trace st @ processing_line k # [], sent := sent st @ []\<rparr>, Some y)"
      by (simp add: emit_def)
    then show ?thesis
      by (intro exI [of _ "[]"] exI [of _ "Some y"] conjI disjI2 exI [of _ 0]) simp_all
  next
    case skip
    then have "process_site e cols s c k site_df st =
       (st\<lparr>trace := trace st @ processing_line k # [skipped_line k], sent := sent st @ []\<rparr>, None)"
      by (simp add: process_site_def emit_def Let_def)
    then show ?thesis
      by blast
  next
    case rows
    let ?reg = "is_anyone_registered site_df"
    obtain n x where n: "n \<le> length site_df" "x = None \<longrightarrow> n = length site_df"
      and run: "send_rows e cols s c ?reg site_df ?st =
       (?st\<lparr>trace := trace ?st @ map (\<lambda>r. sent_line r (build_message s c ?reg r)) (take n site_df),
           sent := sent ?st @ map (build_message s c ?reg) (take n site_df)\<rparr>, x)"
      using send_rows_shape [of site_df e cols s c ?reg ?st] by blast
    have "process_site e cols s c k site_df st =
       (st\<lparr>trace := trace st @ processing_line k #
                map (\<lambda>r. sent_line r (build_message s c ?reg r)) (take n site_df),
           sent := sent st @ map (build_message s c ?reg) (take n site_df)\<rparr>, x)"
      unfolding process_site_not_skipped [OF rows(3,1,2)] run by (simp add: emit_def)
    then show ?thesis
      using n by blast
  qed
qed


lemma finished_not_in_site_events:
  "(finished :: 'k event) \<noteq> processing_line k" "(finished :: 'k event) \<noteq> skipped_line k"
  "(finished :: 'k event) \<noteq> sent_line r m"
  by (simp_all add: finished_def processing_line_def skipped_line_def sent_line_def)

lemma process_site_trace:
  "\<exists>evs. trace (fst (process_site e cols s c k site_df st)) = trace st @ processing_line k # evs
     \<and> finished \<notin> set evs \<and> processed evs = []"
proof -
  obtain evs ms x where run: "process_site e cols s c k site_df st =
       (st\<lparr>trace := trace st @ processing_line k # evs, sent := sent st @ ms\<rparr>, x)"
    and evs: "evs = [skipped_line k]
        \<or> (\<exists>n reg. evs = map (\<lambda>r. sent_line r (build_message s c reg r)) (take n site_df))"
    using process_site_shape [of e cols s c k site_df st] by blast
  have "finished \<notin> set evs"
    using evs by (auto simp: finished_not_in_site_events)
  moreover have "processed evs = []"
    using evs by (auto simp: processed_def skipped_line_def sent_line_def)
  ultimately show ?thesis
    using run by simp
qed

lemma process_site_sent:
  "\<exists>ms. sent (fst (process_site e cols s c k site_df st)) = sent st @ ms
     \<and> (\<forall>m\<in>set ms. \<exists>reg. \<exists>r\<in>set site_df. m = build_message s c reg r)"
proof -
  obtain evs ms x where run: "process_site e cols s c k site_df st =
       (st\<lparr>trace := trace st @ processing_line k # evs, sent := sent st @ ms\<rparr>, x)"
    and ms: "ms = [] \<or> (\<exists>n reg. ms = map (build_message s c reg) (take n site_df))"
    using process_site_shape [of e cols s c k site_df st] by blast
  have "\<forall>m\<in>set ms. \<exists>reg. \<exists>r\<in>set site_df. m = build_message s c reg r"
  proof
    fix m assume m: "m \<in> set ms"
    then obtain n reg where "ms = map (build_message s c reg) (take n site_df)"
      using ms by auto
    then obtain r where "r \<in> set (take n site_df)" "m = build_message s c reg r"
      using m by auto
    then show "\<exists>reg. \<exists>r\<in>set site_df. m = build_message s c reg r"
      using in_set_takeD by fast
  qed
  then show ?thesis
    using run by simp
qed

lemma process_sites_trace:
  "\<exists>evs n. trace (fst (process_sites e cols s c gs st)) = trace st @ evs
     \<and> finished \<notin> set evs \<and> processed evs = take n (map fst gs)
     \<and> (snd (process_sites e cols s c gs st) = None \<longrightarrow> processed evs = map fst gs)"
proof (induction gs arbitrary: st)
  case Nil
  show ?case by (simp add: processed_def)
next
  case (Cons kg gs)
  obtain k site_df where kg: "kg = (k, site_df)"
    by (cases kg)
  obtain st' x where site: "process_site e cols s c k site_df st = (st', x)"
    by (cases "process_site e cols s c k site_df st")
  obtain evs where evs: "trace st' = trace st @ processing_line k # evs"
    "finished \<notin> set evs" "processed evs = []"
    using process_site_trace [of e cols s c k site_df st] site by auto
  have pk: "processed (processing_line k # evs) = [k]"
    using evs(3) by (simp add: processed_def processing_line_def)
  show ?case
  proof (cases x)
    case (Some y)
    then have "process_sites e cols s c (kg # gs) st = (st', Some y)"
      using kg site by simp
    then show ?thesis
      using evs pk
      by (intro exI [of _ "processing_line k # evs"] exI [of _ 1])
         (simp add: kg finished_not_in_site_events)
  next
    case None
    then have step: "process_sites e cols s c (kg # gs) st = process_sites e cols s c gs st'"
      using kg site by simp
    obtain evs' n where rest: "trace (fst (process_sites e cols s c gs st')) = trace st' @ evs'"
      "finished \<notin> set evs'" "processed evs' = take n (map fst gs)"
      "snd (process_sites e cols s c gs st') = None \<longrightarrow> processed evs' = map fst gs"
      using Cons.IH [of st'] by (elim exE conjE)
    have app: "processed ((processing_line k # evs) @ evs') = k # processed evs'"
      using pk by (simp add: processed_def)
    show ?thesis
      unfolding step
      using evs rest app
      by (intro exI [of _ "(processing_line k # evs) @ evs'"] exI [of _ "Suc n"])
         (simp add: kg finished_not_in_site_events)
  qed
qed

lemma process_sites_sent:
  "\<exists>ms. sent (fst (process_sites e cols s c gs st)) = sent st @ ms
     \<and> (\<forall>m\<in>set ms. \<exists>reg. \<exists>r\<in>set (concat (map snd gs)). m = build_message s c reg r)"
proof (induction gs arbitrary: st)
  case Nil
  show ?case by simp
next
  case (Cons kg gs)
  obtain k site_df where kg: "kg = (k, site_df)"
    by (cases kg)
  obtain st' x where site: "process_site e cols s c k site_df st = (st', x)"
    by (cases "process_site e cols s c k site_df st")
  obtain ms where ms: "sent st' = sent st @ ms"
    "\<forall>m\<in>set ms. \<exists>reg. \<exists>r\<in>set site_df. m = build_message s c reg r"
    using process_site_sent [of e cols s c k site_df st] site by auto
  show ?case
  proof (cases x)
    case (Some y)
    then have "process_sites e cols s c (kg # gs) st = (st', Some y)"
      using kg site by simp
    then have "sent (fst (process_sites e cols s c (kg # gs) st)) = sent st @ ms"
      using ms(1) by simp
    moreover have "\<forall>m\<in>set ms. \<exists>reg. \<exists>r\<in>set (concat (map snd (kg # gs))). m = build_message s c reg r"
      using ms(2) unfolding kg by simp blast
    ultimately show ?thesis
      by blast
  next
    case None
    then have step: "process_sites e cols s c (kg # gs) st = process_sites e cols s c gs st'"
      using kg site by simp
    obtain ms' where rest: "sent (fst (process_sites e cols s c gs st')) = sent st' @ ms'"
      "\<forall>m\<in>set ms'. \<exists>reg. \<exists>r\<in>set (concat (map snd gs)). m = build_message s c reg r"
      using Cons.IH [of st'] by blast
    have "sent (fst (process_sites e cols s c (kg # gs) st)) = sent st @ (ms @ ms')"
      unfolding step using ms(1) rest(1) by simp
    moreover have "\<forall>m\<in>set (ms @ ms'). \<exists>reg. \<exists>r\<in>set (concat (map snd (kg # gs))). m = build_message s c reg r"
      using ms(2) rest(2) unfolding kg by simp blast
    ultimately show ?thesis
      by blast
  qed
qed





lemma set_site_keys:
  "set (site_keys df) = {k. \<exists>r\<in>set (rows df). site_number r = Some k}"
  by (force simp: site_keys_def List.map_filter_def image_iff)

lemma sorted_site_keys: "sorted (site_keys df)" "distinct (site_keys df)"
  by (simp_all add: site_keys_def)

lemma groupby_keys: "groupby df = Inr gs \<Longrightarrow> map fst gs = site_keys df"
  by (auto simp: groupby_def comp_def split: if_splits)

lemma groupby_rows: "groupby df = Inr gs \<Longrightarrow> set (concat (map snd gs)) \<subseteq> set (rows df)"
  by (auto simp: groupby_def split: if_splits)

lemma login_events:
  "finished \<noteq> Log Info [Lit ''Establishing secure connection with SMTP server...'']"
  "finished \<noteq> Log Success [Lit ''Login successful.'']"
  "processed (Log Info [Lit ''Establishing secure connection with SMTP server...''] # evs)
     = processed evs"
  "processed (Log Success [Lit ''Login successful.''] # evs) = processed evs"
  "processed [] = []"
  by (simp_all add: finished_def processed_def)

lemma with_body_trace:
  "\<exists>evs. trace (fst (with_body e df s pw c st)) = trace st @ evs
     \<and> finished \<notin> set evs \<and> prefix (processed evs) (site_keys df)
     \<and> (snd (with_body e df s pw c st) = None \<longrightarrow> processed evs = site_keys df)"
proof -
  let ?b = "Log Success [Lit ''Login successful.'']"
  let ?st2 = "emit ?b st"
  show ?thesis
  proof (cases "login e s pw")
    case (Some x)
    then have "with_body e df s pw c st = (st, Some x)"
      by (simp add: with_body_def)
    then show ?thesis
      by (intro exI [of _ "[]"]) (simp add: login_events)
  next
    case None
    show ?thesis
    proof (cases "groupby df")
      case (Inl x)
      then have "with_body e df s pw c st = (?st2, Some x)"
        using None by (simp add: with_body_def Let_def)
      then show ?thesis
        by (intro exI [of _ "[?b]"]) (simp add: emit_def login_events)
    next
      case (Inr gs)
      then have run: "with_body e df s pw c st = process_sites e (columns df) s c gs ?st2"
        using None by (simp add: with_body_def Let_def)
      obtain evs n where evs: "trace (fst (process_sites e (columns df) s c gs ?st2)) = trace ?st2 @ evs"
        "finished \<notin> set evs" "processed evs = take n (map fst gs)"
        "snd (process_sites e (columns df) s c gs ?st2) = None \<longrightarrow> processed evs = map fst gs"
        using process_sites_trace [of e "columns df" s c gs ?st2] by (elim exE conjE)
      show ?thesis
        unfolding run using evs groupby_keys [OF Inr]
        by (intro exI [of _ "?b # evs"]) (simp add: emit_def take_is_prefix login_events)
    qed
  qed
qed

lemma with_body_sent:
  "\<exists>ms. sent (fst (with_body e df s pw c st)) = sent st @ ms
     \<and> (\<forall>m\<in>set ms. \<exists>reg. \<exists>r\<in>set (rows df). m = build_message s c reg r)"
proof (cases "login e s pw = None \<and> (\<exists>gs. groupby df = Inr gs)")
  case False
  then have "sent (fst (with_body e df s pw c st)) = sent st @ []"
    by (auto simp: with_body_def emit_def Let_def split: option.splits sum.splits)
  then show ?thesis
    by (intro exI [of _ "[]"]) simp
next
  case True
  then obtain gs where gs: "groupby df = Inr gs"
    by blast
  let ?st2 = "emit (Log Success [Lit ''Login successful.'']) st"
  have run: "with_body e df s pw c st = process_sites e (columns df) s c gs ?st2"
    using True gs by (simp add: with_body_def Let_def)
  obtain ms where ms: "sent (fst (process_sites e (columns df) s c gs ?st2)) = sent ?st2 @ ms"
    "\<forall>m\<in>set ms. \<exists>reg. \<exists>r\<in>set (concat (map snd gs)). m = build_message s c reg r"
    using process_sites_sent [of e "columns df" s c gs ?st2] by blast
  have "\<forall>m\<in>set ms. \<exists>reg. \<exists>r\<in>set (rows df). m = build_message s c reg r"
    using ms(2) groupby_rows [OF gs] by blast
  then show ?thesis
    unfolding run using ms(1) by (simp add: emit_def)
qed


lemma try_body_state:
  "fst (try_body e df s pw c st) =
     (if connect e = None
      then fst (with_body e df s pw c
             (emit (Log Info [Lit ''Establishing secure connection with SMTP server...'']) st))
      else emit (Log Info [Lit ''Establishing secure connection with SMTP server...'']) st)"
  by (simp add: try_body_def Let_def split: option.splits prod.splits)

lemma try_body_returns:
  "snd (try_body e df s pw c st) = None \<longleftrightarrow>
     connect e = None \<and> quit e = None
     \<and> snd (with_body e df s pw c
          (emit (Log Info [Lit ''Establishing secure connection with SMTP server...'']) st)) = None"
  by (simp add: try_body_def Let_def split: option.splits prod.splits)

lemma try_body_trace:
  "\<exists>evs. trace (fst (try_body e df s pw c st)) = trace st @ evs
     \<and> finished \<notin> set evs \<and> prefix (processed evs) (site_keys df)
     \<and> (snd (try_body e df s pw c st) = None \<longrightarrow> processed evs = site_keys df)"
proof -
  let ?a = "Log Info [Lit ''Establishing secure connection with SMTP server...'']"
  let ?st1 = "emit ?a st"
  show ?thesis
  proof (cases "connect e = None")
    case False
    then have "fst (try_body e df s pw c st) = ?st1" "snd (try_body e df s pw c st) \<noteq> None"
      by (auto simp: try_body_state try_body_returns)
    then show ?thesis
      by (intro exI [of _ "[?a]"]) (auto simp: emit_def login_events)
  next
    case True
    obtain evs where evs: "trace (fst (with_body e df s pw c ?st1)) = trace ?st1 @ evs"
      "finished \<notin> set evs" "prefix (processed evs) (site_keys df)"
      "snd (with_body e df s pw c ?st1) = None \<longrightarrow> processed evs = site_keys df"
      using with_body_trace [of e df s pw c ?st1] by (elim exE conjE)
    have "fst (try_body e df s pw c st) = fst (with_body e df s pw c ?st1)"
      using True by (simp add: try_body_state)
    then show ?thesis
      using evs try_body_returns [of e df s pw c st]
      by (intro exI [of _ "?a # evs"]) (simp add: emit_def login_events)
  qed
qed

lemma try_body_trace_complete:
  assumes "connect e = None"
    and "snd (with_body e df s pw c
           (emit (Log Info [Lit ''Establishing secure connection with SMTP server...''])
              init_state)) = None"
  shows "processed (trace (fst (try_body e df s pw c init_state))) = site_keys df"
proof -
  let ?a = "Log Info [Lit ''Establishing secure connection with SMTP server...'']"
  let ?st1 = "emit ?a init_state"
  obtain evs where evs: "trace (fst (with_body e df s pw c ?st1)) = trace ?st1 @ evs"
    "snd (with_body e df s pw c ?st1) = None \<longrightarrow> processed evs = site_keys df"
    using with_body_trace [of e df s pw c ?st1] by (elim exE conjE)
  have "fst (try_body e df s pw c init_state) = fst (with_body e df s pw c ?st1)"
    using assms(1) by (simp add: try_body_state)
  then have "trace (fst (try_body e df s pw c init_state)) = ?a # evs"
    using evs(1) by (simp add: emit_def init_state_def)
  then show ?thesis
    using evs(2) assms(2) by (simp add: login_events)
qed

lemma try_body_sent:
  "\<exists>ms. sent (fst (try_body e df s pw c st)) = sent st @ ms
     \<and> (\<forall>m\<in>set ms. \<exists>reg. \<exists>r\<in>set (rows df). m = build_message s c reg r)"
proof (cases "connect e = None")
  case False
  then have "sent (fst (try_body e df s pw c st)) = sent st @ []"
    by (auto simp: try_body_state emit_def)
  then show ?thesis
    by (intro exI [of _ "[]"]) simp
next
  case True
  let ?st1 = "emit (Log Info [Lit ''Establishing secure connection with SMTP server...'']) st"
  have "fst (try_body e df s pw c st) = fst (with_body e df s pw c ?st1)"
    using True by (simp add: try_body_state)
  then show ?thesis
    using with_body_sent [of e df s pw c ?st1] by (simp add: emit_def)
qed


section \<open>The routine as a whole\<close>

lemma run_shape:
  assumes "try_body e df s pw c init_state = (st, raised)"
  shows "trace (send_automated_emails e df s pw c) =
           trace st
           @ (case raised of None \<Rightarrow> []
              | Some x \<Rightarrow> (case except_clause x of Some line \<Rightarrow> [line] | None \<Rightarrow> []))
           @ [Balloons, finished]"
    and "sent (send_automated_emails e df s pw c) = sent st"
    and "propagated (send_automated_emails e df s pw c) =
           (case raised of None \<Rightarrow> None
            | Some x \<Rightarrow> if is_Exception x then None else Some x)"
proof -
  show "trace (send_automated_emails e df s pw c) =
           trace st
           @ (case raised of None \<Rightarrow> []
              | Some x \<Rightarrow> (case except_clause x of Some line \<Rightarrow> [line] | None \<Rightarrow> []))
           @ [Balloons, finished]"
  proof (cases raised)
    case None
    then show ?thesis
      using assms by (simp add: send_automated_emails_def emit_def)
  next
    case (Some x)
    then show ?thesis
      using assms
      by (cases "except_clause x :: 'a event option")
         (simp_all add: send_automated_emails_def emit_def)
  qed
  show "sent (send_automated_emails e df s pw c) = sent st"
  proof (cases raised)
    case None
    then show ?thesis
      using assms by (simp add: send_automated_emails_def emit_def)
  next
    case (Some x)
    then show ?thesis
      using assms
      by (cases "except_clause x :: 'a event option")
         (simp_all add: send_automated_emails_def emit_def)
  qed
  show "propagated (send_automated_emails e df s pw c) =
           (case raised of None \<Rightarrow> None
            | Some x \<Rightarrow> if is_Exception x then None else Some x)"
  proof (cases raised)
    case None
    then show ?thesis
      using assms by (simp add: send_automated_emails_def emit_def)
  next
    case (Some x)
    then show ?thesis
      using assms
      by (cases x) (simp_all add: send_automated_emails_def emit_def except_clause_def)
  qed
qed

lemma except_clause_events:
  "finished \<notin> set (case raised of None \<Rightarrow> []
      | Some x \<Rightarrow> (case except_clause x of Some line \<Rightarrow> [line] | None \<Rightarrow> []))"
  "processed (case raised of None \<Rightarrow> []
      | Some x \<Rightarrow> (case except_clause x of Some line \<Rightarrow> [line] | None \<Rightarrow> [])) = []"
proof -
  show "finished \<notin> set (case raised of None \<Rightarrow> []
      | Some x \<Rightarrow> (case except_clause x of Some line \<Rightarrow> [line] | None \<Rightarrow> []))"
  proof (cases raised)
    case None
    then show ?thesis by simp
  next
    case (Some x)
    then show ?thesis
      by (cases x) (simp_all add: except_clause_def finished_def)
  qed
  show "processed (case raised of None \<Rightarrow> []
      | Some x \<Rightarrow> (case except_clause x of Some line \<Rightarrow> [line] | None \<Rightarrow> [])) = []"
  proof (cases raised)
    case None
    then show ?thesis by (simp add: processed_def)
  next
    case (Some x)
    then show ?thesis
      by (cases x) (simp_all add: except_clause_def processed_def)
  qed
qed

lemma closing_events:
  "finished \<noteq> Balloons" "processed [Balloons, finished] = []"
  "processed (xs @ ys) = processed xs @ processed ys"
  by (simp_all add: finished_def processed_def)

text \<open>
  C5. For every relay and every table, whether the body of the \<open>try\<close> completes, is left by
  an authentication failure or is left by any other exception, and also when the table is empty,
  the log of the routine ends with the "process finished" line, and that line occurs nowhere
  else in the log.
\<close>

theorem finished_line_last_and_once:
  "trace (send_automated_emails e df s pw c) \<noteq> []
   \<and> last (trace (send_automated_emails e df s pw c)) = finished
   \<and> count_list (trace (send_automated_emails e df s pw c)) finished = 1"
proof -
  obtain st raised where body: "try_body e df s pw c init_state = (st, raised)"
    by (cases "try_body e df s pw c init_state")
  obtain evs where evs: "trace st = evs" "finished \<notin> set evs"
    using try_body_trace [of e df s pw c init_state] body by (auto simp: init_state_def)
  let ?h = "case raised of None \<Rightarrow> []
      | Some x \<Rightarrow> (case except_clause x of Some line \<Rightarrow> [line] | None \<Rightarrow> [])"
  have "finished \<notin> set ?h"
    by (rule except_clause_events)
  then have "finished \<notin> set (evs @ ?h @ [Balloons])"
    using evs(2) by (simp add: closing_events)
  then have "count_list (evs @ ?h @ [Balloons]) finished = 0"
    by (rule count_notin)
  then have "count_list ((evs @ ?h @ [Balloons]) @ [finished]) finished = 1"
    by (simp del: append_assoc)
  moreover have "trace (send_automated_emails e df s pw c) = (evs @ ?h @ [Balloons]) @ [finished]"
    using run_shape(1) [OF body] evs(1) by simp
  ultimately show ?thesis
    by (simp del: append_assoc)
qed

lemma build_message_headers:
  "msg_from (build_message s c reg r) = s"
  "msg_to (build_message s c reg r) = email r"
  "msg_cc (build_message s c reg r) = (if c \<noteq> [] then Some c else None)"
  by (simp_all add: build_message_def Let_def)

text \<open>
  C7. Every message built for a row carries the sender address as From, the row's Email as
  To, and the CC string as Cc when that string is not empty and no Cc when it is empty; and every
  message the routine sends in a run is such a message, built for a row of the table.
\<close>

theorem message_headers:
  "(\<forall>reg r. msg_from (build_message s c reg r) = s
       \<and> msg_to (build_message s c reg (r :: 'k row)) = email r
       \<and> (c \<noteq> [] \<longrightarrow> msg_cc (build_message s c reg r) = Some c)
       \<and> (c = [] \<longrightarrow> msg_cc (build_message s c reg r) = None))
   \<and> (\<forall>m\<in>set (sent (send_automated_emails e (df :: ('k::linorder) dataframe) s pw c)).
         msg_from m = s
       \<and> (c \<noteq> [] \<longrightarrow> msg_cc m = Some c)
       \<and> (c = [] \<longrightarrow> msg_cc m = None)
       \<and> (\<exists>r\<in>set (rows df). msg_to m = email r))"
proof (intro conjI ballI allI)
  fix m assume m: "m \<in> set (sent (send_automated_emails e df s pw c))"
  obtain st raised where body: "try_body e df s pw c init_state = (st, raised)"
    by (cases "try_body e df s pw c init_state")
  obtain ms where ms: "sent st = ms"
    "\<forall>m\<in>set ms. \<exists>reg. \<exists>r\<in>set (rows df). m = build_message s c reg r"
    using try_body_sent [of e df s pw c init_state] body by (auto simp: init_state_def)
  have "sent (send_automated_emails e df s pw c) = ms"
    using run_shape(2) [OF body] ms(1) by simp
  then obtain reg r where r: "r \<in> set (rows df)" "m = build_message s c reg r"
    using m ms(2) by blast
  show "msg_from m = s" "c \<noteq> [] \<longrightarrow> msg_cc m = Some c" "c = [] \<longrightarrow> msg_cc m = None"
    using r(2) by (simp_all add: build_message_headers)
  show "\<exists>r\<in>set (rows df). msg_to m = email r"
    using r by (auto simp: build_message_headers)
qed (simp_all add: build_message_headers)

lemma scenario_A_run:
  "sent (send_automated_emails reliable
       \<lparr>columns = required_columns,
        rows = [mk_row (Some (1::int)) (Str ''no'') (Str ''CREATION SUCCESSFUL'') (Str ''a@x.com''),
                mk_row (Some 1) (Str ''no'') (Str ''PENDING'') (Str ''b@x.com'')]\<rparr>
       ''me@x.com'' ''pw'' ''boss@x.com, audit@x.com'')
   = [\<lparr>msg_from = ''me@x.com'', msg_to = Str ''a@x.com'', msg_cc = Some ''boss@x.com, audit@x.com'',
       subject = ''Reminder: Please Download Your File'', content = reminder_body\<rparr>,
      \<lparr>msg_from = ''me@x.com'', msg_to = Str ''b@x.com'', msg_cc = Some ''boss@x.com, audit@x.com'',
       subject = ''Action Required: Please Complete Your Registration'', content = complete_body\<rparr>]"
  by (simp add: send_automated_emails_def try_body_def with_body_def groupby_def site_keys_def
      List.map_filter_def required_columns_def mk_row_def reliable_def process_site_def
      has_downloaded_def is_anyone_registered_def upper_examples build_message_def emit_def
      init_state_def Let_def)

theorem message_headers_witness:
  "map msg_from (sent (send_automated_emails reliable
       \<lparr>columns = required_columns,
        rows = [mk_row (Some (1::int)) (Str ''no'') (Str ''CREATION SUCCESSFUL'') (Str ''a@x.com''),
                mk_row (Some 1) (Str ''no'') (Str ''PENDING'') (Str ''b@x.com'')]\<rparr>
       ''me@x.com'' ''pw'' ''boss@x.com, audit@x.com'')) = [''me@x.com'', ''me@x.com'']
   \<and> map msg_cc (sent (send_automated_emails reliable
       \<lparr>columns = required_columns,
        rows = [mk_row (Some (1::int)) (Str ''no'') (Str ''CREATION SUCCESSFUL'') (Str ''a@x.com''),
                mk_row (Some 1) (Str ''no'') (Str ''PENDING'') (Str ''b@x.com'')]\<rparr>
       ''me@x.com'' ''pw'' ''boss@x.com, audit@x.com''))
     = [Some ''boss@x.com, audit@x.com'', Some ''boss@x.com, audit@x.com'']"
  using message_headers [of "''me@x.com''" "''boss@x.com, audit@x.com''" reliable
      "\<lparr>columns = required_columns,
        rows = [mk_row (Some (1::int)) (Str ''no'') (Str ''CREATION SUCCESSFUL'') (Str ''a@x.com''),
                mk_row (Some 1) (Str ''no'') (Str ''PENDING'') (Str ''b@x.com'')]\<rparr>" "''pw''"]
  unfolding scenario_A_run by simp

section \<open>Grouping\<close>

text \<open>
  C9, as the claim states it, fails: in a table whose first row belongs to site 2 and whose
  second row belongs to site 1, site 1 is processed, logged and mailed before site 2.
\<close>

theorem first_occurrence_order_counterexample:
  "processed (trace (send_automated_emails reliable
       \<lparr>columns = required_columns,
        rows = [mk_row (Some (2::int)) (Str ''no'') (Str ''PENDING'') (Str ''b@x.com''),
                mk_row (Some 1) (Str ''no'') (Str ''PENDING'') (Str ''a@x.com'')]\<rparr>
       ''me@x.com'' ''pw'' [])) = [1, 2]
   \<and> map msg_to (sent (send_automated_emails reliable
       \<lparr>columns = required_columns,
        rows = [mk_row (Some (2::int)) (Str ''no'') (Str ''PENDING'') (Str ''b@x.com''),
                mk_row (Some 1) (Str ''no'') (Str ''PENDING'') (Str ''a@x.com'')]\<rparr>
       ''me@x.com'' ''pw'' [])) = [Str ''a@x.com'', Str ''b@x.com'']"
  by (simp add: send_automated_emails_def try_body_def with_body_def groupby_def site_keys_def
      List.map_filter_def required_columns_def mk_row_def reliable_def process_site_def
      has_downloaded_def is_anyone_registered_def upper_examples build_message_def emit_def
      init_state_def Let_def processed_def processing_line_def sent_line_def finished_def)

text \<open>
  C9, amended. Site groups are processed in ascending order of Site Number, each site once:
  the sites whose processing line is logged form an initial part of the ascending list of the
  distinct Site Numbers present in the table, and all of that list when no exception leaves the
  body of the \<open>try\<close>, and also when none leaves the \<open>with\<close> block before the session
  is closed. So when site A's number is smaller than site B's, A's group is processed and logged
  before B's.
\<close>

theorem sites_processed_in_ascending_order:
  "prefix (processed (trace (send_automated_emails e df s pw c))) (site_keys df)
   \<and> sorted (processed (trace (send_automated_emails e df s pw c)))
   \<and> distinct (processed (trace (send_automated_emails e df s pw c)))
   \<and> sorted (site_keys df) \<and> distinct (site_keys df)
   \<and> set (site_keys df) = {k. \<exists>r\<in>set (rows df). site_number r = Some k}
   \<and> (snd (try_body e df s pw c init_state) = None \<longrightarrow>
        processed (trace (send_automated_emails e df s pw c)) = site_keys df)
   \<and> (connect e = None
        \<and> snd (with_body e df s pw c
              (emit (Log Info [Lit ''Establishing secure connection with SMTP server...''])
                 init_state)) = None \<longrightarrow>
        processed (trace (send_automated_emails e df s pw c)) = site_keys df)"
proof -
  obtain st raised where body: "try_body e df s pw c init_state = (st, raised)"
    by (cases "try_body e df s pw c init_state")
  obtain evs where evs: "trace st = evs" "prefix (processed evs) (site_keys df)"
    "raised = None \<longrightarrow> processed evs = site_keys df"
    using try_body_trace [of e df s pw c init_state] body by (auto simp: init_state_def)
  have same: "processed (trace (send_automated_emails e df s pw c)) = processed evs"
    unfolding run_shape(1) [OF body] evs(1)
    by (simp add: closing_events except_clause_events(2))
  have whole: "connect e = None
        \<and> snd (with_body e df s pw c
              (emit (Log Info [Lit ''Establishing secure connection with SMTP server...''])
                 init_state)) = None \<longrightarrow>
        processed (trace (send_automated_emails e df s pw c)) = site_keys df"
    using try_body_trace_complete [of e df s pw c] body evs(1) same by simp
  from same have run: "prefix (processed (trace (send_automated_emails e df s pw c))) (site_keys df)"
    "raised = None \<longrightarrow> processed (trace (send_automated_emails e df s pw c)) = site_keys df"
    using evs(2,3) by simp_all
  obtain zs where zs: "site_keys df = processed (trace (send_automated_emails e df s pw c)) @ zs"
    using run(1) by (auto simp: prefix_def)
  have "sorted (processed (trace (send_automated_emails e df s pw c)))"
    using sorted_site_keys(1) [of df] unfolding zs by (simp add: sorted_append)
  moreover have "distinct (processed (trace (send_automated_emails e df s pw c)))"
    using sorted_site_keys(2) [of df] unfolding zs by simp
  ultimately show ?thesis
    using run whole body by (simp add: sorted_site_keys set_site_keys)
qed

theorem sites_processed_in_ascending_order_witness:
  "processed (trace (send_automated_emails reliable
       \<lparr>columns = required_columns,
        rows = [mk_row (Some (7::int)) (Str ''no'') (Str ''PENDING'') (Str ''c@x.com''),
                mk_row (Some 3) (Str ''yes'') (Str ''PENDING'') (Str ''b@x.com''),
                mk_row (Some 7) (Str ''no'') (Str ''PENDING'') (Str ''a@x.com'')]\<rparr>
       ''me@x.com'' ''pw'' [])) = [3, 7]"
proof -
  let ?df = "\<lparr>columns = required_columns,
        rows = [mk_row (Some (7::int)) (Str ''no'') (Str ''PENDING'') (Str ''c@x.com''),
                mk_row (Some 3) (Str ''yes'') (Str ''PENDING'') (Str ''b@x.com''),
                mk_row (Some 7) (Str ''no'') (Str ''PENDING'') (Str ''a@x.com'')]\<rparr>"
  have h: "snd (try_body reliable ?df ''me@x.com'' ''pw'' [] init_state) = None"
    by (simp add: try_body_def with_body_def groupby_def site_keys_def
      List.map_filter_def required_columns_def mk_row_def reliable_def process_site_def
      has_downloaded_def is_anyone_registered_def upper_examples build_message_def emit_def
      init_state_def Let_def)
  have k: "site_keys ?df = [3, 7]"
    by (simp add: site_keys_def List.map_filter_def mk_row_def)
  show ?thesis
    using sites_processed_in_ascending_order [of reliable ?df "''me@x.com''" "''pw''" "[]"] h k
    by simp
qed

lemma mset_filter_disjoint:
  assumes "\<forall>x\<in>set xs. \<not> (P x \<and> Q x)"
  shows "mset (filter P xs) + mset (filter Q xs) = mset (filter (\<lambda>x. P x \<or> Q x) xs)"
  using assms by (induction xs) auto

lemma mset_groups:
  assumes "distinct ks"
  shows "mset (concat (map (\<lambda>k. filter (\<lambda>r. f r = Some k) xs) ks)) =
           mset (filter (\<lambda>r. \<exists>k\<in>set ks. f r = Some k) xs)"
  using assms
proof (induction ks)
  case Nil
  show ?case by simp
next
  case (Cons k ks)
  have disj: "\<forall>r\<in>set xs. \<not> (f r = Some k \<and> (\<exists>k'\<in>set ks. f r = Some k'))"
    using Cons.prems by auto
  have "mset (concat (map (\<lambda>k. filter (\<lambda>r. f r = Some k) xs) (k # ks))) =
          mset (filter (\<lambda>r. f r = Some k) xs)
          + mset (filter (\<lambda>r. \<exists>k'\<in>set ks. f r = Some k') xs)"
    using Cons by simp
  also have "\<dots> = mset (filter (\<lambda>r. f r = Some k \<or> (\<exists>k'\<in>set ks. f r = Some k')) xs)"
    using disj by (rule mset_filter_disjoint)
  also have "\<dots> = mset (filter (\<lambda>r. \<exists>k'\<in>set (k # ks). f r = Some k') xs)"
    by simp
  finally show ?case .
qed

text \<open>
  C6, as the claim states it, fails: a row whose Site Number is missing belongs to no
  group, so the groups of a table with such a row do not cover the table, and the row gets no
  message although its site is not skipped.
\<close>

theorem grouping_partition_counterexample:
  "groupby \<lparr>columns = required_columns,
            rows = [mk_row (None :: int option) (Str ''no'') (Str ''PENDING'') (Str ''a@x.com'')]\<rparr>
     = Inr []
   \<and> sent (send_automated_emails reliable
       \<lparr>columns = required_columns,
        rows = [mk_row (None :: int option) (Str ''no'') (Str ''PENDING'') (Str ''a@x.com'')]\<rparr>
       ''me@x.com'' ''pw'' []) = []"
  by (simp add: send_automated_emails_def try_body_def with_body_def groupby_def site_keys_def
      List.map_filter_def required_columns_def mk_row_def reliable_def emit_def init_state_def)

text \<open>
  C6, amended. The grouping step partitions the rows whose Site Number is present: the
  groups have pairwise different keys, the group of a key holds exactly the rows with that Site
  Number, in table order, and is not empty, every Site Number present in the table has its
  group, and the rows of all groups together are, with multiplicity, the rows of the table whose
  Site Number is present. A row whose Site Number is missing belongs to no group.
\<close>

theorem grouping_partitions_keyed_rows:
  assumes "groupby df = Inr gs"
  shows "distinct (map fst gs)
         \<and> (\<forall>(k, g)\<in>set gs. g \<noteq> [] \<and> g = filter (\<lambda>r. site_number r = Some k) (rows df))
         \<and> (\<forall>r\<in>set (rows df). \<forall>k. site_number r = Some k \<longrightarrow> k \<in> set (map fst gs))
         \<and> mset (concat (map snd gs)) = mset (filter (\<lambda>r. site_number r \<noteq> None) (rows df))
         \<and> (\<forall>r\<in>set (rows df). site_number r = None \<longrightarrow> r \<notin> set (concat (map snd gs)))"
proof -
  have gs: "gs = map (\<lambda>k. (k, filter (\<lambda>r. site_number r = Some k) (rows df))) (site_keys df)"
    using assms by (simp add: groupby_def split: if_splits)
  have keys: "map fst gs = site_keys df"
    using assms by (rule groupby_keys)
  have a: "distinct (map fst gs)"
    unfolding keys by (rule sorted_site_keys)
  have b: "\<forall>(k, g)\<in>set gs. g \<noteq> [] \<and> g = filter (\<lambda>r. site_number r = Some k) (rows df)"
    unfolding gs by (auto simp: set_site_keys filter_empty_conv)
  have c: "\<forall>r\<in>set (rows df). \<forall>k. site_number r = Some k \<longrightarrow> k \<in> set (map fst gs)"
    unfolding keys by (auto simp: set_site_keys)
  have same: "filter (\<lambda>r. \<exists>k\<in>set (site_keys df). site_number r = Some k) (rows df) =
          filter (\<lambda>r. site_number r \<noteq> None) (rows df)"
    by (rule filter_cong) (auto simp: set_site_keys)
  have "concat (map snd gs) =
          concat (map (\<lambda>k. filter (\<lambda>r. site_number r = Some k) (rows df)) (site_keys df))"
    unfolding gs by (simp add: comp_def)
  then have d: "mset (concat (map snd gs)) = mset (filter (\<lambda>r. site_number r \<noteq> None) (rows df))"
    using mset_groups [OF sorted_site_keys(2), of site_number "rows df" df] same by simp
  have e: "\<forall>r\<in>set (rows df). site_number r = None \<longrightarrow> r \<notin> set (concat (map snd gs))"
    unfolding gs by auto
  show ?thesis
    by (rule conjI [OF a conjI [OF b conjI [OF c conjI [OF d e]]]])
qed

theorem grouping_partitions_keyed_rows_witness:
  "groupby \<lparr>columns = required_columns,
            rows = [mk_row (Some (5::int)) (Str ''no'') (Str ''PENDING'') (Str ''a@x.com''),
                    mk_row None (Str ''no'') (Str ''PENDING'') (Str ''b@x.com''),
                    mk_row (Some 4) (Str ''no'') (Str ''PENDING'') (Str ''c@x.com''),
                    mk_row (Some 5) (Str ''no'') (Str ''PENDING'') (Str ''d@x.com'')]\<rparr>
     = Inr [(4::int, [mk_row (Some (4::int)) (Str ''no'') (Str ''PENDING'') (Str ''c@x.com'')]),
            (5, [mk_row (Some 5) (Str ''no'') (Str ''PENDING'') (Str ''a@x.com''),
                 mk_row (Some 5) (Str ''no'') (Str ''PENDING'') (Str ''d@x.com'')])]
   \<and> distinct (map fst [(4::int, [mk_row (Some (4::int)) (Str ''no'') (Str ''PENDING'') (Str ''c@x.com'')]),
            (5, [mk_row (Some 5) (Str ''no'') (Str ''PENDING'') (Str ''a@x.com''),
                 mk_row (Some 5) (Str ''no'') (Str ''PENDING'') (Str ''d@x.com'')])])"
proof -
  let ?df = "\<lparr>columns = required_columns,
            rows = [mk_row (Some (5::int)) (Str ''no'') (Str ''PENDING'') (Str ''a@x.com''),
                    mk_row None (Str ''no'') (Str ''PENDING'') (Str ''b@x.com''),
                    mk_row (Some 4) (Str ''no'') (Str ''PENDING'') (Str ''c@x.com''),
                    mk_row (Some 5) (Str ''no'') (Str ''PENDING'') (Str ''d@x.com'')]\<rparr>"
  let ?gs = "[(4::int, [mk_row (Some (4::int)) (Str ''no'') (Str ''PENDING'') (Str ''c@x.com'')]),
            (5, [mk_row (Some 5) (Str ''no'') (Str ''PENDING'') (Str ''a@x.com''),
                 mk_row (Some 5) (Str ''no'') (Str ''PENDING'') (Str ''d@x.com'')])]"
  have h: "groupby ?df = Inr ?gs"
    by (simp add: groupby_def site_keys_def List.map_filter_def required_columns_def mk_row_def)
  have "distinct (map fst ?gs)"
    using grouping_partitions_keyed_rows [OF h] by (rule conjunct1)
  with h show ?thesis
    by (rule conjI)
qed

section \<open>Failures\<close>










end
